theory Spec2Isabelle
  imports Complex_Main "HOL-Library.Char_ord" "HOL-Library.List_Lexorder"
begin

section \<open>Data model\<close>

text \<open>
  A \<^verbatim>\<open>datetime.date\<close> is modelled by its day number (\<^verbatim>\<open>date.toordinal()\<close>), so that
  \<^verbatim>\<open>d + timedelta(days=n)\<close> is \<open>d + n\<close> and the comparisons of dates are those of
  integers. The model covers the dates on which this arithmetic is defined in Python
  (the calendar's last year, 9999, is not reached).
\<close>

type_synonym date = int

text \<open>
  One row of the frame built from a dynamics chunk, after the selection
  \<^verbatim>\<open>df_chunk[["Date", "Cur_OfficialRate"]]\<close>.
\<close>

record rate_point =
  Date :: date
  Cur_OfficialRate :: real

text \<open>
  The call \<^verbatim>\<open>requests.get(f"{BASE}/rates/dynamics/{cur_id}", params={startdate, enddate})\<close>,
  by the three values that vary.
\<close>

datatype request = Get_dynamics int date date

text \<open>
  What \<^verbatim>\<open>requests.get\<close> does: it raises (no connection, timeout), or it returns a
  response with a status code and a body, here the decoded list of rows.
\<close>

datatype reply = ConnectionError | Response nat "rate_point list"

datatype error = RequestException | HTTPError nat

text \<open>The notices the aggregator shows, by their arguments, and the call that shows them.\<close>

datatype notice =
    Not_in_list string
  | No_Cur_ID string date date
  | No_dynamics string date date

datatype message = St_warning notice | St_info notice

text \<open>
  The effects of a run: the requests sent, in order, and the messages shown, in order.
\<close>

record session =
  requests :: "request list"
  messages :: "message list"

definition sent :: "request \<Rightarrow> session \<Rightarrow> session" where
  "sent r st = st\<lparr>requests := requests st @ [r]\<rparr>"

definition shown :: "message \<Rightarrow> session \<Rightarrow> session" where
  "shown m st = st\<lparr>messages := messages st @ [m]\<rparr>"

section \<open>The chunked fetcher\<close>

definition max_days :: int where
  "max_days = 365"

text \<open>\<^verbatim>\<open>chunk_end = min(s + dt.timedelta(days=max_days-1), end)\<close>\<close>

definition chunk_end :: "date \<Rightarrow> date \<Rightarrow> date" where
  "chunk_end s endd = min (s + (max_days - 1)) endd"

text \<open>\<^verbatim>\<open>resp.raise_for_status()\<close> raises on the statuses 400 to 599.\<close>

definition raise_for_status :: "nat \<Rightarrow> bool" where
  "raise_for_status status = (400 \<le> status \<and> status < 600)"

text \<open>
  The \<^verbatim>\<open>while s <= end\<close> loop of \<^verbatim>\<open>chunked_dynamics_fetch\<close>: \<open>dfs\<close> is the list of the
  non-empty chunks so far. An exception leaves the loop with the session as it is then.
\<close>

function fetch_loop ::
  "(request \<Rightarrow> reply) \<Rightarrow> int \<Rightarrow> date \<Rightarrow> date \<Rightarrow> rate_point list list \<Rightarrow> session
    \<Rightarrow> (error + rate_point list list) \<times> session" where
  "fetch_loop net cur_id s endd dfs st =
     (if s \<le> endd then
        (case net (Get_dynamics cur_id s (chunk_end s endd)) of
           ConnectionError \<Rightarrow>
             (Inl RequestException, sent (Get_dynamics cur_id s (chunk_end s endd)) st)
         | Response status chunk \<Rightarrow>
             if status = 404 then
               fetch_loop net cur_id (chunk_end s endd + 1) endd dfs
                 (sent (Get_dynamics cur_id s (chunk_end s endd)) st)
             else if raise_for_status status then
               (Inl (HTTPError status), sent (Get_dynamics cur_id s (chunk_end s endd)) st)
             else
               fetch_loop net cur_id (chunk_end s endd + 1) endd
                 (if chunk \<noteq> [] then dfs @ [chunk] else dfs)
                 (sent (Get_dynamics cur_id s (chunk_end s endd)) st))
      else (Inr dfs, st))"
  by pat_completeness auto
termination
  by (relation "measure (\<lambda>(net, cur_id, s, endd, dfs, st). nat (endd + 1 - s))")
     (auto simp: chunk_end_def max_days_def)

text \<open>
  \<^verbatim>\<open>drop_duplicates(subset="Date")\<close> keeps the first row of every date; \<open>seen\<close> holds
  the dates already kept.
\<close>

fun drop_duplicates :: "date list \<Rightarrow> rate_point list \<Rightarrow> rate_point list" where
  "drop_duplicates seen [] = []"
| "drop_duplicates seen (x # xs) =
     (if Date x \<in> set seen then drop_duplicates seen xs
      else x # drop_duplicates (Date x # seen) xs)"

text \<open>\<^verbatim>\<open>sort_values("Date")\<close>, on rows whose dates are distinct.\<close>

definition sort_values :: "rate_point list \<Rightarrow> rate_point list" where
  "sort_values df = sort_key Date df"

definition chunked_dynamics_fetch ::
  "(request \<Rightarrow> reply) \<Rightarrow> int \<Rightarrow> date \<Rightarrow> date \<Rightarrow> session
    \<Rightarrow> (error + rate_point list) \<times> session" where
  "chunked_dynamics_fetch net cur_id start endd st =
     (if endd < start then (Inr [], st)
      else
        (case fetch_loop net cur_id start endd [] st of
           (Inl e, st') \<Rightarrow> (Inl e, st')
         | (Inr dfs, st') \<Rightarrow>
             (Inr (if dfs \<noteq> [] then sort_values (drop_duplicates [] (concat dfs)) else []),
              st')))"

text \<open>
  Auxiliary, for the statements below: the windows \<open>(s, chunk_end)\<close> that the loop variables
  run through when no request raises, the requests they stand for, the replies on which
  the loop raises, and the partial series a reply contributes.
\<close>

function windows :: "date \<Rightarrow> date \<Rightarrow> (date \<times> date) list" where
  "windows s endd =
     (if s \<le> endd then (s, chunk_end s endd) # windows (chunk_end s endd + 1) endd else [])"
  by pat_completeness auto
termination
  by (relation "measure (\<lambda>(s, endd). nat (endd + 1 - s))")
     (auto simp: chunk_end_def max_days_def)

definition window_requests :: "int \<Rightarrow> (date \<times> date) list \<Rightarrow> request list" where
  "window_requests cur_id ws = map (\<lambda>w. Get_dynamics cur_id (fst w) (snd w)) ws"

definition fails :: "reply \<Rightarrow> bool" where
  "fails r = (case r of ConnectionError \<Rightarrow> True
              | Response status chunk \<Rightarrow> status \<noteq> 404 \<and> raise_for_status status)"

definition partial :: "reply \<Rightarrow> rate_point list" where
  "partial r = (case r of ConnectionError \<Rightarrow> []
                | Response status chunk \<Rightarrow> if status = 404 then [] else chunk)"

definition raised :: "reply \<Rightarrow> error" where
  "raised r = (case r of ConnectionError \<Rightarrow> RequestException
               | Response status chunk \<Rightarrow> HTTPError status)"

section \<open>The multi-currency aggregator\<close>

text \<open>
  A row of the currency directory (\<^verbatim>\<open>currency_map\<close>, the frame of \<^verbatim>\<open>fetch_currency_list\<close>);
  the two date columns are taken after \<^verbatim>\<open>pd.to_datetime(...).dt.date\<close>.
\<close>

record currency =
  Cur_ID :: int
  Cur_Abbreviation :: string
  Cur_Scale :: int
  Cur_Name :: string
  Cur_DateStart :: date
  Cur_DateEnd :: date

text \<open>
  An element of \<^verbatim>\<open>series\<close>: the fetched frame with its rate column renamed to the code.
\<close>

type_synonym column = "string \<times> rate_point list"

text \<open>
  The frame that \<^verbatim>\<open>rates_for_currencies\<close> returns: the names of the rate columns, and a
  row for every date with one cell for each column (\<open>None\<close> is the empty cell, NaN).
\<close>

record frame =
  Column_names :: "string list"
  Rows :: "(date \<times> real option list) list"

text \<open>\<^verbatim>\<open>rows = currency_map[currency_map["Cur_Abbreviation"] == code]\<close>\<close>

definition rows_for :: "string \<Rightarrow> currency list \<Rightarrow> currency list" where
  "rows_for code currency_map = filter (\<lambda>r. Cur_Abbreviation r = code) currency_map"

text \<open>
  \<^verbatim>\<open>valid\<close>: the rows whose dates include the whole period and, when there is none, the
  rows whose dates include its start.
\<close>

definition valid_rows :: "currency list \<Rightarrow> date \<Rightarrow> date \<Rightarrow> currency list" where
  "valid_rows rows start endd =
     (let valid = filter (\<lambda>r. Cur_DateStart r \<le> start \<and> Cur_DateEnd r \<ge> endd) rows
      in if valid = []
         then filter (\<lambda>r. Cur_DateStart r \<le> start \<and> Cur_DateEnd r \<ge> start) rows
         else valid)"

text \<open>
  The \<^verbatim>\<open>for code in codes\<close> loop. The exception of a fetch is not caught in
  \<^verbatim>\<open>rates_for_currencies\<close>: it leaves the loop.
\<close>

fun series_loop ::
  "(request \<Rightarrow> reply) \<Rightarrow> string list \<Rightarrow> currency list \<Rightarrow> date \<Rightarrow> date \<Rightarrow> column list
    \<Rightarrow> session \<Rightarrow> (error + column list) \<times> session" where
  "series_loop net [] currency_map start endd series st = (Inr series, st)"
| "series_loop net (code # codes) currency_map start endd series st =
     (if rows_for code currency_map = [] then
        series_loop net codes currency_map start endd series
          (shown (St_warning (Not_in_list code)) st)
      else
        (case valid_rows (rows_for code currency_map) start endd of
           [] \<Rightarrow>
             series_loop net codes currency_map start endd series
               (shown (St_info (No_Cur_ID code start endd)) st)
         | r # rest \<Rightarrow>
             (case chunked_dynamics_fetch net (Cur_ID r)
                     (max start (Cur_DateStart r)) (min endd (Cur_DateEnd r)) st of
                (Inl e, st') \<Rightarrow> (Inl e, st')
              | (Inr df_dyn, st') \<Rightarrow>
                  if df_dyn = [] then
                    series_loop net codes currency_map start endd series
                      (shown (St_info (No_dynamics code (max start (Cur_DateStart r))
                                (min endd (Cur_DateEnd r)))) st')
                  else
                    series_loop net codes currency_map start endd
                      (series @ [(code, df_dyn)]) st')))"

text \<open>
  \<^verbatim>\<open>pd.concat(series, axis=1).sort_index()\<close> on frames indexed by date, then
  \<^verbatim>\<open>reset_index()\<close>: the dates are the sorted union of the dates of the series.
\<close>

definition concat_axis1 :: "column list \<Rightarrow> frame" where
  "concat_axis1 series =
     \<lparr>Column_names = map fst series,
      Rows = map (\<lambda>d. (d, map (\<lambda>c. map_option Cur_OfficialRate
                                    (find (\<lambda>p. Date p = d) (snd c))) series))
               (sort (remdups (concat (map (\<lambda>c. map Date (snd c)) series))))\<rparr>"

text \<open>\<^verbatim>\<open>pd.DataFrame()\<close>\<close>

definition empty_frame :: frame where
  "empty_frame = \<lparr>Column_names = [], Rows = []\<rparr>"

definition rates_for_currencies ::
  "(request \<Rightarrow> reply) \<Rightarrow> string list \<Rightarrow> currency list \<Rightarrow> date \<Rightarrow> date \<Rightarrow> session
    \<Rightarrow> (error + frame) \<times> session" where
  "rates_for_currencies net codes currency_map start endd st =
     (case series_loop net codes currency_map start endd [] st of
        (Inl e, st') \<Rightarrow> (Inl e, st')
      | (Inr series, st') \<Rightarrow>
          (Inr (if series = [] then empty_frame else concat_axis1 series), st'))"

text \<open>
  The resolver as the specification words it (4.1): among the records of the code, the
  first in directory order whose validity window covers the whole range and, when there
  is none, the first whose window covers the start.
\<close>

definition resolve :: "string \<Rightarrow> date \<Rightarrow> date \<Rightarrow> currency list \<Rightarrow> currency option" where
  "resolve code start endd directory =
     (case find (\<lambda>r. Cur_Abbreviation r = code \<and> Cur_DateStart r \<le> start \<and> endd \<le> Cur_DateEnd r)
             directory of
        Some r \<Rightarrow> Some r
      | None \<Rightarrow>
          find (\<lambda>r. Cur_Abbreviation r = code \<and> Cur_DateStart r \<le> start \<and> start \<le> Cur_DateEnd r)
            directory)"

section \<open>The snapshot comparison\<close>

















section \<open>Properties of the chunked fetcher\<close>

lemma chunk_end_ge: "s \<le> endd \<Longrightarrow> s \<le> chunk_end s endd"
  by (simp add: chunk_end_def max_days_def)

declare windows.simps [simp del]

lemma windows_Nil: "endd < s \<Longrightarrow> windows s endd = []"
  by (subst windows.simps) simp

lemma windows_Cons:
  "s \<le> endd \<Longrightarrow> windows s endd = (s, chunk_end s endd) # windows (chunk_end s endd + 1) endd"
  by (subst windows.simps) simp

lemma chunk_end_le: "chunk_end s endd \<le> endd"
  by (simp add: chunk_end_def)

lemma chunk_end_span: "chunk_end s endd - s + 1 \<le> max_days"
  by (simp add: chunk_end_def max_days_def)

lemma windows_bounds:
  "(a, b) \<in> set (windows s endd) \<Longrightarrow> s \<le> a \<and> a \<le> b \<and> b \<le> endd \<and> b - a + 1 \<le> max_days"
proof (induction s endd rule: windows.induct)
  case (1 s endd)
  show ?case
  proof (cases "s \<le> endd")
    case True
    with "1.prems" have "(a, b) = (s, chunk_end s endd) \<or> (a, b) \<in> set (windows (chunk_end s endd + 1) endd)"
      by (simp add: windows_Cons)
    then show ?thesis
    proof
      assume "(a, b) = (s, chunk_end s endd)"
      with True show ?thesis
        using chunk_end_ge [of s endd] chunk_end_le [of s endd] chunk_end_span [of s endd] by simp
    next
      assume "(a, b) \<in> set (windows (chunk_end s endd + 1) endd)"
      with "1.IH" True have "chunk_end s endd + 1 \<le> a \<and> a \<le> b \<and> b \<le> endd \<and> b - a + 1 \<le> max_days"
        by simp
      with True show ?thesis using chunk_end_ge [of s endd] by simp
    qed
  next
    case False
    with "1.prems" show ?thesis by (simp add: windows_Nil)
  qed
qed

lemma windows_last: "s \<le> endd \<Longrightarrow> snd (last (windows s endd)) = endd"
proof (induction s endd rule: windows.induct)
  case (1 s endd)
  show ?case
  proof (cases "chunk_end s endd + 1 \<le> endd")
    case True
    with 1 show ?thesis by (simp add: windows_Cons [of s endd] windows_Cons [of "chunk_end s endd + 1" endd])
  next
    case False
    with 1 have "chunk_end s endd = endd" using chunk_end_le [of s endd] by simp
    with 1 False show ?thesis by (simp add: windows_Cons [of s endd] windows_Nil)
  qed
qed

lemma windows_adjacent:
  "Suc i < length (windows s endd) \<Longrightarrow>
     fst (windows s endd ! Suc i) = snd (windows s endd ! i) + 1"
proof (induction s endd arbitrary: i rule: windows.induct)
  case (1 s endd)
  show ?case
  proof (cases "s \<le> endd")
    case True
    note ws = windows_Cons [OF True]
    show ?thesis
    proof (cases i)
      case 0
      with "1.prems" ws have "windows (chunk_end s endd + 1) endd \<noteq> []" by auto
      then have "chunk_end s endd + 1 \<le> endd" using windows_Nil [of endd "chunk_end s endd + 1"] by fastforce
      then show ?thesis using 0 ws by (simp add: windows_Cons [of "chunk_end s endd + 1" endd])
    next
      case (Suc j)
      with "1.prems" ws have "Suc j < length (windows (chunk_end s endd + 1) endd)" by simp
      with "1.IH" True have "fst (windows (chunk_end s endd + 1) endd ! Suc j) = snd (windows (chunk_end s endd + 1) endd ! j) + 1"
        by simp
      with Suc ws show ?thesis by simp
    qed
  next
    case False
    with "1.prems" show ?thesis by (simp add: windows_Nil)
  qed
qed

lemma windows_before: "d < s \<Longrightarrow> filter (\<lambda>w. fst w \<le> d \<and> d \<le> snd w) (windows s endd) = []"
proof -
  have "\<not> (fst w \<le> d \<and> d \<le> snd w)" if "d < s" "w \<in> set (windows s endd)" for w
    using windows_bounds [of "fst w" "snd w" s endd] that by simp
  then show "d < s \<Longrightarrow> ?thesis" by (simp add: filter_empty_conv)
qed

lemma windows_cover:
  "s \<le> d \<Longrightarrow> d \<le> endd \<Longrightarrow> length (filter (\<lambda>w. fst w \<le> d \<and> d \<le> snd w) (windows s endd)) = 1"
proof (induction s endd rule: windows.induct)
  case (1 s endd)
  from "1.prems" have le: "s \<le> endd" by simp
  note ws = windows_Cons [OF le]
  show ?case
  proof (cases "d \<le> chunk_end s endd")
    case True
    then have "filter (\<lambda>w. fst w \<le> d \<and> d \<le> snd w) (windows (chunk_end s endd + 1) endd) = []"
      by (intro windows_before) simp
    with True "1.prems" ws show ?thesis by simp
  next
    case False
    with "1.IH" le "1.prems" have "length (filter (\<lambda>w. fst w \<le> d \<and> d \<le> snd w) (windows (chunk_end s endd + 1) endd)) = 1"
      by simp
    with False ws show ?thesis by simp
  qed
qed

lemma windows_length: "length (windows s endd) \<le> nat (endd + 1 - s)"
proof (induction s endd rule: windows.induct)
  case (1 s endd)
  show ?case
  proof (cases "s \<le> endd")
    case True
    with "1.IH" have "length (windows (chunk_end s endd + 1) endd) \<le> nat (endd + 1 - (chunk_end s endd + 1))"
      by simp
    with True show ?thesis
      using chunk_end_ge [OF True] by (simp add: windows_Cons [OF True])
  next
    case False
    then show ?thesis by (simp add: windows_Nil)
  qed
qed

lemma windows_400:
  "windows start (start + 399) = [(start, start + 364), (start + 365, start + 399)]"
proof -
  have a: "chunk_end start (start + 399) = start + 364"
    by (simp add: chunk_end_def max_days_def)
  have b: "chunk_end (start + 365) (start + 399) = start + 399"
    by (simp add: chunk_end_def max_days_def)
  have "windows (start + 365) (start + 399) = [(start + 365, start + 399)]"
    by (simp add: windows_Cons [of "start + 365" "start + 399"] b windows_Nil)
  moreover have "windows start (start + 399) = (start, start + 364) # windows (start + 364 + 1) (start + 399)"
    using windows_Cons [of start "start + 399"] a by simp
  moreover have "start + 364 + 1 = start + 365" by simp
  ultimately show ?thesis by simp
qed

declare fetch_loop.simps [simp del]

lemma fetch_loop_done: "endd < s \<Longrightarrow> fetch_loop net cur_id s endd dfs st = (Inr dfs, st)"
  by (subst fetch_loop.simps) simp

lemma fetch_loop_404:
  "s \<le> endd \<Longrightarrow> net (Get_dynamics cur_id s (chunk_end s endd)) = Response 404 chunk \<Longrightarrow>
   fetch_loop net cur_id s endd dfs st =
     fetch_loop net cur_id (chunk_end s endd + 1) endd dfs
       (sent (Get_dynamics cur_id s (chunk_end s endd)) st)"
  by (subst fetch_loop.simps) simp

lemma fetch_loop_data:
  "s \<le> endd \<Longrightarrow> net (Get_dynamics cur_id s (chunk_end s endd)) = Response status chunk \<Longrightarrow>
   status \<noteq> 404 \<Longrightarrow> \<not> raise_for_status status \<Longrightarrow>
   fetch_loop net cur_id s endd dfs st =
     fetch_loop net cur_id (chunk_end s endd + 1) endd (if chunk \<noteq> [] then dfs @ [chunk] else dfs)
       (sent (Get_dynamics cur_id s (chunk_end s endd)) st)"
  by (subst fetch_loop.simps) simp

lemma fetch_loop_raise:
  "s \<le> endd \<Longrightarrow> net (Get_dynamics cur_id s (chunk_end s endd)) = Response status chunk \<Longrightarrow>
   status \<noteq> 404 \<Longrightarrow> raise_for_status status \<Longrightarrow>
   fetch_loop net cur_id s endd dfs st =
     (Inl (HTTPError status), sent (Get_dynamics cur_id s (chunk_end s endd)) st)"
  by (subst fetch_loop.simps) simp

lemma fetch_loop_no_connection:
  "s \<le> endd \<Longrightarrow> net (Get_dynamics cur_id s (chunk_end s endd)) = ConnectionError \<Longrightarrow>
   fetch_loop net cur_id s endd dfs st =
     (Inl RequestException, sent (Get_dynamics cur_id s (chunk_end s endd)) st)"
  by (subst fetch_loop.simps) simp

lemma fetch_loop_step:
  assumes "s \<le> endd"
  shows "(fails (net (Get_dynamics cur_id s (chunk_end s endd))) \<and>
          (\<exists>e. fetch_loop net cur_id s endd dfs st =
                 (Inl e, sent (Get_dynamics cur_id s (chunk_end s endd)) st))) \<or>
         (\<not> fails (net (Get_dynamics cur_id s (chunk_end s endd))) \<and>
          fetch_loop net cur_id s endd dfs st =
            fetch_loop net cur_id (chunk_end s endd + 1) endd
              (if partial (net (Get_dynamics cur_id s (chunk_end s endd))) \<noteq> []
               then dfs @ [partial (net (Get_dynamics cur_id s (chunk_end s endd)))] else dfs)
              (sent (Get_dynamics cur_id s (chunk_end s endd)) st))"
proof (cases "net (Get_dynamics cur_id s (chunk_end s endd))")
  case ConnectionError
  with assms show ?thesis by (simp add: fails_def fetch_loop_no_connection)
next
  case (Response status chunk)
  show ?thesis
  proof (cases "status = 404")
    case True
    with assms Response show ?thesis
      using fetch_loop_404 [of s endd net cur_id chunk dfs st] by (simp add: fails_def partial_def)
  next
    case False
    with assms Response show ?thesis
      using fetch_loop_data [of s endd net cur_id status chunk dfs st]
        fetch_loop_raise [of s endd net cur_id status chunk dfs st]
      by (cases "raise_for_status status") (simp_all add: fails_def partial_def)
  qed
qed

lemma fetch_loop_messages: "messages (snd (fetch_loop net cur_id s endd dfs st)) = messages st"
proof (induction net cur_id s endd dfs st rule: fetch_loop.induct)
  case (1 net cur_id s endd dfs st)
  show ?case
  proof (cases "s \<le> endd")
    case True
    show ?thesis
    proof (cases "net (Get_dynamics cur_id s (chunk_end s endd))")
      case ConnectionError
      with True show ?thesis by (simp add: fetch_loop_no_connection sent_def)
    next
      case (Response status chunk)
      with True "1.IH" show ?thesis
        by (subst fetch_loop.simps) (simp add: sent_def)
    qed
  next
    case False
    then show ?thesis by (simp add: fetch_loop_done)
  qed
qed

lemma fetch_loop_requests:
  "\<exists>k. requests (snd (fetch_loop net cur_id s endd dfs st)) =
          requests st @ window_requests cur_id (take k (windows s endd)) \<and>
        k \<le> length (windows s endd) \<and> (s \<le> endd \<longrightarrow> 0 < k) \<and>
        (\<not> isl (fst (fetch_loop net cur_id s endd dfs st)) \<longrightarrow> k = length (windows s endd))"
proof (induction net cur_id s endd dfs st rule: fetch_loop.induct)
  case (1 net cur_id s endd dfs st)
  let ?r = "Get_dynamics cur_id s (chunk_end s endd)"
  show ?case
  proof (cases "s \<le> endd")
    case False
    then show ?thesis
      by (intro exI [of _ 0]) (simp add: fetch_loop_done windows_Nil window_requests_def)
  next
    case True
    note ws = windows_Cons [OF True]
    from fetch_loop_step [OF True, of net cur_id dfs st] show ?thesis
    proof (elim disjE conjE exE)
      fix e
      assume "fetch_loop net cur_id s endd dfs st = (Inl e, sent ?r st)"
      then show ?thesis
        by (intro exI [of _ 1]) (simp add: ws window_requests_def sent_def)
    next
      let ?dfs = "if partial (net ?r) \<noteq> [] then dfs @ [partial (net ?r)] else dfs"
      assume nf: "\<not> fails (net ?r)"
        and eq: "fetch_loop net cur_id s endd dfs st =
                   fetch_loop net cur_id (chunk_end s endd + 1) endd ?dfs (sent ?r st)"
      have "\<exists>k. requests (snd (fetch_loop net cur_id (chunk_end s endd + 1) endd ?dfs (sent ?r st))) =
          requests (sent ?r st) @ window_requests cur_id (take k (windows (chunk_end s endd + 1) endd)) \<and>
        k \<le> length (windows (chunk_end s endd + 1) endd) \<and>
        (chunk_end s endd + 1 \<le> endd \<longrightarrow> 0 < k) \<and>
        (\<not> isl (fst (fetch_loop net cur_id (chunk_end s endd + 1) endd ?dfs (sent ?r st))) \<longrightarrow>
           k = length (windows (chunk_end s endd + 1) endd))"
      proof (cases "net ?r")
        case ConnectionError
        with nf show ?thesis by (simp add: fails_def)
      next
        case (Response status chunk)
        show ?thesis
        proof (cases "status = 404")
          case True
          with "1.IH"(1) [OF \<open>s \<le> endd\<close> Response True] Response show ?thesis
            by (simp add: partial_def)
        next
          case False
          with nf Response have nr: "\<not> raise_for_status status" by (simp add: fails_def)
          from "1.IH"(2) [OF \<open>s \<le> endd\<close> Response False nr] Response False show ?thesis
            by (cases "chunk = []") (simp_all add: partial_def)
        qed
      qed
      then obtain k where k: "requests (snd (fetch_loop net cur_id (chunk_end s endd + 1) endd ?dfs (sent ?r st))) =
          requests (sent ?r st) @ window_requests cur_id (take k (windows (chunk_end s endd + 1) endd))"
        "k \<le> length (windows (chunk_end s endd + 1) endd)"
        "\<not> isl (fst (fetch_loop net cur_id (chunk_end s endd + 1) endd ?dfs (sent ?r st))) \<longrightarrow>
           k = length (windows (chunk_end s endd + 1) endd)"
        by blast
      show ?thesis
        using k eq by (intro exI [of _ "Suc k"]) (simp add: ws window_requests_def sent_def)
    qed
  qed
qed

lemma chunked_requests:
  assumes "start \<le> endd"
  shows "\<exists>k. requests (snd (chunked_dynamics_fetch net cur_id start endd st)) =
          requests st @ window_requests cur_id (take k (windows start endd)) \<and>
        k \<le> length (windows start endd) \<and> 0 < k \<and>
        (\<not> isl (fst (chunked_dynamics_fetch net cur_id start endd st)) \<longrightarrow>
           k = length (windows start endd))"
proof -
  obtain r st' where f: "fetch_loop net cur_id start endd [] st = (r, st')"
    by (cases "fetch_loop net cur_id start endd [] st")
  have c: "snd (chunked_dynamics_fetch net cur_id start endd st) = st'"
    "isl (fst (chunked_dynamics_fetch net cur_id start endd st)) = isl r"
    using assms f by (cases r; simp add: chunked_dynamics_fetch_def)+
  from fetch_loop_requests [of net cur_id start endd "[]" st] f assms c show ?thesis
    by simp
qed

lemma fetch_loop_count:
  "length (requests (snd (fetch_loop net cur_id s endd dfs st))) \<le>
     length (requests st) + nat (endd + 1 - s)"
proof -
  from fetch_loop_requests [of net cur_id s endd dfs st] obtain k where
    k: "requests (snd (fetch_loop net cur_id s endd dfs st)) =
          requests st @ window_requests cur_id (take k (windows s endd))"
    "k \<le> length (windows s endd)"
    by blast
  from k windows_length [of s endd] show ?thesis
    by (simp add: window_requests_def)
qed

subsection \<open>The windows of a range\<close>

text \<open>
  Claim C3. For \<open>start \<le> endd\<close>, the requests that \<open>chunked_dynamics_fetch\<close> sends are,
  in order and once each, the first \<open>k \<ge> 1\<close> windows of \<open>windows start endd\<close>, and all of
  them when the fetch returns a series (it stops early only where a request raises).
  These windows partition the range: the first starts at \<open>start\<close>, the last ends at
  \<open>endd\<close>, each spans at least one and at most 365 days, each starts on the day after
  the one before it ends, and every day of the range lies in exactly one window. A range
  of 400 days has exactly the two windows of 365 and 35 days.
\<close>

theorem chunked_fetch_partition:
  assumes "start \<le> endd"
  shows "(\<exists>k. requests (snd (chunked_dynamics_fetch net cur_id start endd st)) =
            requests st @ window_requests cur_id (take k (windows start endd)) \<and>
          0 < k \<and> k \<le> length (windows start endd) \<and>
          (\<not> isl (fst (chunked_dynamics_fetch net cur_id start endd st)) \<longrightarrow>
             k = length (windows start endd))) \<and>
         fst (hd (windows start endd)) = start \<and>
         snd (last (windows start endd)) = endd \<and>
         (\<forall>w \<in> set (windows start endd). fst w \<le> snd w \<and> snd w - fst w + 1 \<le> 365) \<and>
         (\<forall>i. Suc i < length (windows start endd) \<longrightarrow>
           fst (windows start endd ! Suc i) = snd (windows start endd ! i) + 1) \<and>
         (\<forall>d. start \<le> d \<and> d \<le> endd \<longrightarrow>
           length (filter (\<lambda>w. fst w \<le> d \<and> d \<le> snd w) (windows start endd)) = 1) \<and>
         (endd = start + 399 \<longrightarrow>
           windows start endd = [(start, start + 364), (start + 365, start + 399)])"
proof (intro conjI)
  show "\<exists>k. requests (snd (chunked_dynamics_fetch net cur_id start endd st)) =
            requests st @ window_requests cur_id (take k (windows start endd)) \<and>
          0 < k \<and> k \<le> length (windows start endd) \<and>
          (\<not> isl (fst (chunked_dynamics_fetch net cur_id start endd st)) \<longrightarrow>
             k = length (windows start endd))"
    using chunked_requests [OF assms, of net cur_id st] by blast
  show "fst (hd (windows start endd)) = start"
    using assms by (simp add: windows_Cons)
  show "snd (last (windows start endd)) = endd"
    using assms by (rule windows_last)
  show "\<forall>w \<in> set (windows start endd). fst w \<le> snd w \<and> snd w - fst w + 1 \<le> 365"
  proof
    fix w assume "w \<in> set (windows start endd)"
    then have "(fst w, snd w) \<in> set (windows start endd)" by simp
    from windows_bounds [OF this] show "fst w \<le> snd w \<and> snd w - fst w + 1 \<le> 365"
      by (simp add: max_days_def)
  qed
  show "\<forall>i. Suc i < length (windows start endd) \<longrightarrow>
           fst (windows start endd ! Suc i) = snd (windows start endd ! i) + 1"
    by (simp add: windows_adjacent)
  show "\<forall>d. start \<le> d \<and> d \<le> endd \<longrightarrow>
           length (filter (\<lambda>w. fst w \<le> d \<and> d \<le> snd w) (windows start endd)) = 1"
    by (simp add: windows_cover)
  show "endd = start + 399 \<longrightarrow>
           windows start endd = [(start, start + 364), (start + 365, start + 399)]"
    by (simp add: windows_400)
qed

theorem chunked_fetch_partition_witness:
  "(1::int) \<le> 400 \<and>
   windows 1 400 = [(1, 365), (366, 400)] \<and>
   requests (snd (chunked_dynamics_fetch (\<lambda>r. Response 200 []) 145 1 400
     \<lparr>requests = [], messages = []\<rparr>)) = [Get_dynamics 145 1 365, Get_dynamics 145 366 400]"
proof -
  have w: "windows 1 400 = [(1, 365), (366, 400)]"
    using chunked_fetch_partition [of 1 400 "\<lambda>r. Response 200 []" 145
        "\<lparr>requests = [], messages = []\<rparr>"]
    by simp
  have "requests (snd (chunked_dynamics_fetch (\<lambda>r. Response 200 []) 145 1 400
     \<lparr>requests = [], messages = []\<rparr>)) = [Get_dynamics 145 1 365, Get_dynamics 145 366 400]"
    by (simp add: chunked_dynamics_fetch_def fetch_loop.simps chunk_end_def max_days_def
        raise_for_status_def sent_def)
  with w show ?thesis by simp
qed

subsection \<open>An empty range\<close>

text \<open>
  Claim C6. When \<open>endd < start\<close>, \<open>chunked_dynamics_fetch\<close> returns the empty series and
  leaves the session as it was: no request is sent.
\<close>

theorem chunked_fetch_empty_range:
  "endd < start \<Longrightarrow> chunked_dynamics_fetch net cur_id start endd st = (Inr [], st)"
  by (simp add: chunked_dynamics_fetch_def)

theorem chunked_fetch_empty_range_witness:
  "(1::int) < 2 \<and>
   chunked_dynamics_fetch (\<lambda>r. ConnectionError) 145 2 1 \<lparr>requests = [], messages = []\<rparr> =
     (Inr [], \<lparr>requests = [], messages = []\<rparr>)"
  using chunked_fetch_empty_range [of 1 2 "\<lambda>r. ConnectionError" 145
      "\<lparr>requests = [], messages = []\<rparr>"]
  by simp

subsection \<open>Termination of the window loop\<close>

text \<open>
  Claim C10. The window loop is a total function (its termination is proved with the
  measure \<open>endd + 1 - s\<close>). In an iteration, that is when \<open>s \<le> endd\<close>, the end of the
  chunk is not before \<open>s\<close>, so the next start \<open>chunk_end s endd + 1\<close> is after \<open>s\<close>; the
  branch of a 404 reply and the branch of a reply with data both continue from that next
  start; and the loop sends at most \<open>endd - s + 1\<close> requests, one for each iteration.
\<close>

theorem fetch_loop_terminates:
  assumes "s \<le> endd"
  shows "s \<le> chunk_end s endd \<and> s < chunk_end s endd + 1 \<and>
         (net (Get_dynamics cur_id s (chunk_end s endd)) = Response 404 chunk \<longrightarrow>
           fetch_loop net cur_id s endd dfs st =
             fetch_loop net cur_id (chunk_end s endd + 1) endd dfs
               (sent (Get_dynamics cur_id s (chunk_end s endd)) st)) \<and>
         (net (Get_dynamics cur_id s (chunk_end s endd)) = Response status chunk \<and>
          status \<noteq> 404 \<and> \<not> raise_for_status status \<longrightarrow>
           fetch_loop net cur_id s endd dfs st =
             fetch_loop net cur_id (chunk_end s endd + 1) endd
               (if chunk \<noteq> [] then dfs @ [chunk] else dfs)
               (sent (Get_dynamics cur_id s (chunk_end s endd)) st)) \<and>
         length (requests (snd (fetch_loop net cur_id s endd dfs st))) \<le>
           length (requests st) + nat (endd - s + 1)"
proof (intro conjI)
  show a: "s \<le> chunk_end s endd" using assms by (rule chunk_end_ge)
  from a show "s < chunk_end s endd + 1" by simp
  show "net (Get_dynamics cur_id s (chunk_end s endd)) = Response 404 chunk \<longrightarrow>
           fetch_loop net cur_id s endd dfs st =
             fetch_loop net cur_id (chunk_end s endd + 1) endd dfs
               (sent (Get_dynamics cur_id s (chunk_end s endd)) st)"
    using assms by (simp add: fetch_loop_404)
  show "net (Get_dynamics cur_id s (chunk_end s endd)) = Response status chunk \<and>
         status \<noteq> 404 \<and> \<not> raise_for_status status \<longrightarrow>
           fetch_loop net cur_id s endd dfs st =
             fetch_loop net cur_id (chunk_end s endd + 1) endd
               (if chunk \<noteq> [] then dfs @ [chunk] else dfs)
               (sent (Get_dynamics cur_id s (chunk_end s endd)) st)"
    using assms fetch_loop_data [of s endd net cur_id status chunk dfs st] by blast
  have "endd + 1 - s = endd - s + 1" by simp
  with fetch_loop_count [of net cur_id s endd dfs st]
  show "length (requests (snd (fetch_loop net cur_id s endd dfs st))) \<le>
           length (requests st) + nat (endd - s + 1)"
    by simp
qed

theorem fetch_loop_terminates_witness:
  "(1::int) \<le> 400 \<and> (1::int) < chunk_end 1 400 + 1 \<and>
   length (requests (snd (fetch_loop (\<lambda>r. Response 404 []) 145 1 400 []
     \<lparr>requests = [], messages = []\<rparr>))) \<le> 400"
proof -
  have h: "(1::int) \<le> 400" by simp
  note t = fetch_loop_terminates [OF h, where net = "\<lambda>r. Response 404 []" and cur_id = 145
      and dfs = "[]" and st = "\<lparr>requests = [], messages = []\<rparr>" and chunk = "[]"
      and status = 404]
  from t have "(1::int) < chunk_end 1 400 + 1" by (rule conjunct1 [OF conjunct2])
  moreover from t have "length (requests (snd (fetch_loop (\<lambda>r. Response 404 []) 145 1 400 []
     \<lparr>requests = [], messages = []\<rparr>))) \<le>
       length (requests \<lparr>requests = [], messages = []\<rparr>) + nat (400 - 1 + 1)"
    by (rule conjunct2 [OF conjunct2 [OF conjunct2 [OF conjunct2]]])
  ultimately show ?thesis by simp
qed

lemma fetch_loop_fail:
  assumes "s \<le> endd" and "fails (net (Get_dynamics cur_id s (chunk_end s endd)))"
  shows "fetch_loop net cur_id s endd dfs st =
           (Inl (raised (net (Get_dynamics cur_id s (chunk_end s endd)))),
            sent (Get_dynamics cur_id s (chunk_end s endd)) st)"
proof (cases "net (Get_dynamics cur_id s (chunk_end s endd))")
  case ConnectionError
  with assms show ?thesis by (simp add: fetch_loop_no_connection raised_def)
next
  case (Response status chunk)
  with assms show ?thesis
    using fetch_loop_raise [of s endd net cur_id status chunk dfs st]
    by (simp add: fails_def raised_def)
qed

lemma fetch_loop_continue:
  assumes "s \<le> endd" and "\<not> fails (net (Get_dynamics cur_id s (chunk_end s endd)))"
  shows "fetch_loop net cur_id s endd dfs st =
           fetch_loop net cur_id (chunk_end s endd + 1) endd
             (if partial (net (Get_dynamics cur_id s (chunk_end s endd))) \<noteq> []
              then dfs @ [partial (net (Get_dynamics cur_id s (chunk_end s endd)))] else dfs)
             (sent (Get_dynamics cur_id s (chunk_end s endd)) st)"
  using fetch_loop_step [OF assms(1), of net cur_id dfs st] assms(2) by blast

lemma fetch_loop_result:
  "fetch_loop net cur_id s endd dfs st =
     (case find (\<lambda>w. fails (net (Get_dynamics cur_id (fst w) (snd w)))) (windows s endd) of
        Some w \<Rightarrow>
          (Inl (raised (net (Get_dynamics cur_id (fst w) (snd w)))),
           st\<lparr>requests := requests st @ window_requests cur_id
                 (takeWhile (\<lambda>w. \<not> fails (net (Get_dynamics cur_id (fst w) (snd w))))
                    (windows s endd) @ [w])\<rparr>)
      | None \<Rightarrow>
          (Inr (dfs @ filter (\<lambda>c. c \<noteq> [])
                  (map (\<lambda>w. partial (net (Get_dynamics cur_id (fst w) (snd w)))) (windows s endd))),
           st\<lparr>requests := requests st @ window_requests cur_id (windows s endd)\<rparr>))"
proof (induction s endd arbitrary: dfs st rule: windows.induct)
  case (1 s endd)
  show ?case
  proof (cases "s \<le> endd")
    case False
    then show ?thesis by (simp add: fetch_loop_done windows_Nil window_requests_def)
  next
    case True
    note ws = windows_Cons [OF True]
    show ?thesis
    proof (cases "fails (net (Get_dynamics cur_id s (chunk_end s endd)))")
      case True
      with \<open>s \<le> endd\<close> show ?thesis
        by (simp add: fetch_loop_fail ws window_requests_def sent_def)
    next
      case False
      with \<open>s \<le> endd\<close> show ?thesis
        by (simp add: fetch_loop_continue "1.IH" ws window_requests_def sent_def
            split: option.split)
    qed
  qed
qed

lemma concat_filter_nonempty: "concat (filter (\<lambda>c. c \<noteq> []) xss) = concat xss"
  by (induction xss) auto

lemma chunked_result:
  "chunked_dynamics_fetch net cur_id start endd st =
     (case find (\<lambda>w. fails (net (Get_dynamics cur_id (fst w) (snd w)))) (windows start endd) of
        Some w \<Rightarrow>
          (Inl (raised (net (Get_dynamics cur_id (fst w) (snd w)))),
           st\<lparr>requests := requests st @ window_requests cur_id
                 (takeWhile (\<lambda>w. \<not> fails (net (Get_dynamics cur_id (fst w) (snd w))))
                    (windows start endd) @ [w])\<rparr>)
      | None \<Rightarrow>
          (Inr (sort_values (drop_duplicates []
                  (concat (map (\<lambda>w. partial (net (Get_dynamics cur_id (fst w) (snd w))))
                     (windows start endd))))),
           st\<lparr>requests := requests st @ window_requests cur_id (windows start endd)\<rparr>))"
proof (cases "endd < start")
  case True
  then show ?thesis
    by (simp add: chunked_dynamics_fetch_def windows_Nil window_requests_def sort_values_def)
next
  case False
  let ?ps = "map (\<lambda>w. partial (net (Get_dynamics cur_id (fst w) (snd w)))) (windows start endd)"
  have e: "filter (\<lambda>c. c \<noteq> []) ?ps = [] \<Longrightarrow> concat ?ps = []"
    using concat_filter_nonempty [of ?ps] by simp
  from False show ?thesis
    by (simp add: chunked_dynamics_fetch_def fetch_loop_result concat_filter_nonempty e
        sort_values_def split: option.split)
qed

lemma drop_duplicates_subset: "set (drop_duplicates seen xs) \<subseteq> set xs"
  by (induction seen xs rule: drop_duplicates.induct) auto

lemma drop_duplicates_dates:
  "Date ` set (drop_duplicates seen xs) = Date ` set xs - set seen"
  by (induction seen xs rule: drop_duplicates.induct) auto

lemma drop_duplicates_distinct: "distinct (map Date (drop_duplicates seen xs))"
proof (induction seen xs rule: drop_duplicates.induct)
  case (1 seen)
  show ?case by simp
next
  case (2 seen x xs)
  show ?case
  proof (cases "Date x \<in> set seen")
    case True
    with 2 show ?thesis by simp
  next
    case False
    have "Date x \<notin> Date ` set (drop_duplicates (Date x # seen) xs)"
      by (simp add: drop_duplicates_dates)
    with False 2 show ?thesis by simp
  qed
qed

lemma drop_duplicates_find:
  "find (\<lambda>x. Date x = d) (drop_duplicates seen xs) =
     (if d \<in> set seen then None else find (\<lambda>x. Date x = d) xs)"
proof (induction seen xs rule: drop_duplicates.induct)
  case (1 seen)
  show ?case by simp
next
  case (2 seen x xs)
  then show ?case by (cases "Date x \<in> set seen") (auto simp: find_None_iff)
qed

lemma find_unique:
  "distinct (map f xs) \<Longrightarrow> x \<in> set xs \<Longrightarrow> find (\<lambda>y. f y = f x) xs = Some x"
  by (induction xs) force+

lemma find_same_set:
  assumes "distinct (map f xs)" and "distinct (map f ys)" and "set xs = set ys"
  shows "find (\<lambda>y. f y = d) xs = find (\<lambda>y. f y = d) ys"
proof (cases "\<exists>x \<in> set xs. f x = d")
  case True
  then obtain x where "x \<in> set xs" "f x = d" by blast
  with assms find_unique [of f xs x] find_unique [of f ys x] show ?thesis by simp
next
  case False
  with assms(3) have "find (\<lambda>y. f y = d) xs = None" and "find (\<lambda>y. f y = d) ys = None"
    by (simp_all add: find_None_iff)
  then show ?thesis by simp
qed

lemma sort_key_distinct:
  "distinct (map f xs) \<Longrightarrow> distinct (map f (sort_key f xs))"
  by (simp add: distinct_map)

lemma sort_values_find:
  assumes "distinct (map Date xs)"
  shows "find (\<lambda>x. Date x = d) (sort_values xs) = find (\<lambda>x. Date x = d) xs"
proof -
  have "distinct (map Date (sort_key Date xs))"
    using assms by (rule sort_key_distinct)
  then show ?thesis
    unfolding sort_values_def by (rule find_same_set) (use assms in simp_all)
qed

lemma sort_values_strict:
  assumes "distinct (map Date xs)"
  shows "sorted_wrt (<) (map Date (sort_values xs))"
proof -
  have "distinct (map Date (sort_key Date xs))"
    using assms by (rule sort_key_distinct)
  moreover have "sorted (map Date (sort_key Date xs))" by simp
  ultimately show ?thesis by (simp add: strict_sorted_iff sort_values_def)
qed

subsection \<open>The merged series\<close>

text \<open>
  Claim C4. Whatever the replies are, a series that \<open>chunked_dynamics_fetch\<close> returns has
  strictly increasing dates, hence no date twice. It is the partial series of the windows,
  concatenated in window order, with the first row of every date kept and the rows
  sorted by date: for every date, the row of the result with that date is the first row
  with that date in the concatenation, and the result has no other rows.
\<close>

theorem chunked_fetch_strictly_increasing:
  assumes "chunked_dynamics_fetch net cur_id start endd st = (Inr df, st')"
  shows "sorted_wrt (<) (map Date df) \<and>
         df = sort_values (drop_duplicates []
                (concat (map (\<lambda>w. partial (net (Get_dynamics cur_id (fst w) (snd w))))
                   (windows start endd)))) \<and>
         (\<forall>d. find (\<lambda>x. Date x = d) df =
               find (\<lambda>x. Date x = d)
                 (concat (map (\<lambda>w. partial (net (Get_dynamics cur_id (fst w) (snd w))))
                    (windows start endd)))) \<and>
         set df \<subseteq> set (concat (map (\<lambda>w. partial (net (Get_dynamics cur_id (fst w) (snd w))))
                    (windows start endd)))"
proof -
  let ?cat = "concat (map (\<lambda>w. partial (net (Get_dynamics cur_id (fst w) (snd w))))
                (windows start endd))"
  have df: "df = sort_values (drop_duplicates [] ?cat)"
    using assms unfolding chunked_result by (simp split: option.splits)
  have d: "distinct (map Date (drop_duplicates [] ?cat))"
    by (rule drop_duplicates_distinct)
  have "sorted_wrt (<) (map Date df)"
    unfolding df using d by (rule sort_values_strict)
  moreover have "find (\<lambda>x. Date x = d) df = find (\<lambda>x. Date x = d) ?cat" for d
    unfolding df by (simp add: sort_values_find [OF d] drop_duplicates_find)
  moreover have "set df \<subseteq> set ?cat"
    unfolding df sort_values_def using drop_duplicates_subset [of "[]" ?cat] by simp
  ultimately show ?thesis using df by blast
qed

theorem chunked_fetch_strictly_increasing_witness:
  "chunked_dynamics_fetch
     (\<lambda>r. case r of Get_dynamics c a b \<Rightarrow>
        if a = 1 then Response 200 [\<lparr>Date = 366, Cur_OfficialRate = 2\<rparr>,
                                    \<lparr>Date = 3, Cur_OfficialRate = 3\<rparr>,
                                    \<lparr>Date = 1, Cur_OfficialRate = 1\<rparr>]
        else Response 200 [\<lparr>Date = 366, Cur_OfficialRate = 9\<rparr>])
     145 1 366 \<lparr>requests = [], messages = []\<rparr> =
   (Inr [\<lparr>Date = 1, Cur_OfficialRate = 1\<rparr>, \<lparr>Date = 3, Cur_OfficialRate = 3\<rparr>,
         \<lparr>Date = 366, Cur_OfficialRate = 2\<rparr>],
    \<lparr>requests = [Get_dynamics 145 1 365, Get_dynamics 145 366 366], messages = []\<rparr>) \<and>
   sorted_wrt (<) (map Date [\<lparr>Date = 1, Cur_OfficialRate = 1\<rparr>, \<lparr>Date = 3, Cur_OfficialRate = 3\<rparr>,
         \<lparr>Date = 366, Cur_OfficialRate = 2::real\<rparr>])"
proof -
  let ?net = "\<lambda>r. case r of Get_dynamics c a b \<Rightarrow>
        if a = 1 then Response 200 [\<lparr>Date = 366, Cur_OfficialRate = 2\<rparr>,
                                    \<lparr>Date = 3, Cur_OfficialRate = 3\<rparr>,
                                    \<lparr>Date = 1, Cur_OfficialRate = 1\<rparr>]
        else Response 200 [\<lparr>Date = 366, Cur_OfficialRate = 9\<rparr>]"
  have e: "chunked_dynamics_fetch ?net 145 1 366 \<lparr>requests = [], messages = []\<rparr> =
   (Inr [\<lparr>Date = 1, Cur_OfficialRate = 1\<rparr>, \<lparr>Date = 3, Cur_OfficialRate = 3\<rparr>,
         \<lparr>Date = 366, Cur_OfficialRate = 2\<rparr>],
    \<lparr>requests = [Get_dynamics 145 1 365, Get_dynamics 145 366 366], messages = []\<rparr>)"
    by (simp add: chunked_dynamics_fetch_def fetch_loop.simps chunk_end_def max_days_def
        raise_for_status_def sent_def sort_values_def)
  from chunked_fetch_strictly_increasing [OF e] e show ?thesis by blast
qed

subsection \<open>Replies without data and replies that raise\<close>

text \<open>
  Claim C5. In an iteration, a 404 reply continues with the next window and the same
  chunks. A reply other than 404 on which the request raises (a status from 400 to 599,
  or no reply at all) ends the fetch: the result is the error of the first such window
  and no later window is requested. When no window raises, the fetch returns a series;
  when moreover no window has data, that series is empty and every window was requested.
\<close>

theorem chunked_fetch_error_policy:
  "(s \<le> endd \<and> net (Get_dynamics cur_id s (chunk_end s endd)) = Response 404 chunk \<longrightarrow>
      fetch_loop net cur_id s endd dfs st =
        fetch_loop net cur_id (chunk_end s endd + 1) endd dfs
          (sent (Get_dynamics cur_id s (chunk_end s endd)) st)) \<and>
   (\<forall>w. find (\<lambda>w. fails (net (Get_dynamics cur_id (fst w) (snd w)))) (windows start endd) = Some w
      \<longrightarrow> chunked_dynamics_fetch net cur_id start endd st =
            (Inl (raised (net (Get_dynamics cur_id (fst w) (snd w)))),
             st\<lparr>requests := requests st @ window_requests cur_id
                   (takeWhile (\<lambda>w. \<not> fails (net (Get_dynamics cur_id (fst w) (snd w))))
                      (windows start endd) @ [w])\<rparr>)) \<and>
   ((\<exists>w \<in> set (windows start endd). fails (net (Get_dynamics cur_id (fst w) (snd w)))) \<longrightarrow>
      (\<exists>e. fst (chunked_dynamics_fetch net cur_id start endd st) = Inl e)) \<and>
   ((\<forall>w \<in> set (windows start endd). \<not> fails (net (Get_dynamics cur_id (fst w) (snd w)))) \<longrightarrow>
      (\<exists>df. fst (chunked_dynamics_fetch net cur_id start endd st) = Inr df)) \<and>
   ((\<forall>w \<in> set (windows start endd).
        \<not> fails (net (Get_dynamics cur_id (fst w) (snd w))) \<and>
        partial (net (Get_dynamics cur_id (fst w) (snd w))) = []) \<longrightarrow>
      chunked_dynamics_fetch net cur_id start endd st =
        (Inr [], st\<lparr>requests := requests st @ window_requests cur_id (windows start endd)\<rparr>))"
proof (intro conjI impI allI)
  assume "s \<le> endd \<and> net (Get_dynamics cur_id s (chunk_end s endd)) = Response 404 chunk"
  then show "fetch_loop net cur_id s endd dfs st =
        fetch_loop net cur_id (chunk_end s endd + 1) endd dfs
          (sent (Get_dynamics cur_id s (chunk_end s endd)) st)"
    by (simp add: fetch_loop_404)
next
  fix w
  assume "find (\<lambda>w. fails (net (Get_dynamics cur_id (fst w) (snd w)))) (windows start endd) = Some w"
  then show "chunked_dynamics_fetch net cur_id start endd st =
            (Inl (raised (net (Get_dynamics cur_id (fst w) (snd w)))),
             st\<lparr>requests := requests st @ window_requests cur_id
                   (takeWhile (\<lambda>w. \<not> fails (net (Get_dynamics cur_id (fst w) (snd w))))
                      (windows start endd) @ [w])\<rparr>)"
    by (simp add: chunked_result)
next
  assume "\<exists>w \<in> set (windows start endd). fails (net (Get_dynamics cur_id (fst w) (snd w)))"
  then have "find (\<lambda>w. fails (net (Get_dynamics cur_id (fst w) (snd w)))) (windows start endd) \<noteq> None"
    unfolding find_None_iff by blast
  then show "\<exists>e. fst (chunked_dynamics_fetch net cur_id start endd st) = Inl e"
    by (auto simp: chunked_result)
next
  assume "\<forall>w \<in> set (windows start endd). \<not> fails (net (Get_dynamics cur_id (fst w) (snd w)))"
  then have "find (\<lambda>w. fails (net (Get_dynamics cur_id (fst w) (snd w)))) (windows start endd) = None"
    unfolding find_None_iff by blast
  then show "\<exists>df. fst (chunked_dynamics_fetch net cur_id start endd st) = Inr df"
    by (simp add: chunked_result)
next
  assume a: "\<forall>w \<in> set (windows start endd).
        \<not> fails (net (Get_dynamics cur_id (fst w) (snd w))) \<and>
        partial (net (Get_dynamics cur_id (fst w) (snd w))) = []"
  then have n: "find (\<lambda>w. fails (net (Get_dynamics cur_id (fst w) (snd w)))) (windows start endd) = None"
    unfolding find_None_iff by blast
  from a have c: "concat (map (\<lambda>w. partial (net (Get_dynamics cur_id (fst w) (snd w))))
                 (windows start endd)) = []"
    by simp
  have "sort_values (drop_duplicates []
          (concat (map (\<lambda>w. partial (net (Get_dynamics cur_id (fst w) (snd w))))
             (windows start endd)))) = []"
    unfolding c by (simp add: sort_values_def)
  with n show "chunked_dynamics_fetch net cur_id start endd st =
        (Inr [], st\<lparr>requests := requests st @ window_requests cur_id (windows start endd)\<rparr>)"
    by (simp add: chunked_result)
qed

theorem chunked_fetch_error_policy_witness:
  "chunked_dynamics_fetch (\<lambda>r. Response 404 []) 145 1 400 \<lparr>requests = [], messages = []\<rparr> =
     (Inr [], \<lparr>requests = [Get_dynamics 145 1 365, Get_dynamics 145 366 400], messages = []\<rparr>) \<and>
   (\<exists>e. fst (chunked_dynamics_fetch
      (\<lambda>r. case r of Get_dynamics c a b \<Rightarrow> if a = 1 then Response 404 [] else Response 500 [])
      145 1 400 \<lparr>requests = [], messages = []\<rparr>) = Inl e)"
proof -
  have w: "windows 1 400 = [(1, 365), (366, 400)]"
    using windows_400 [of 1] by simp
  note t1 = chunked_fetch_error_policy [where net = "\<lambda>r. Response 404 []" and cur_id = 145
      and start = 1 and endd = 400 and st = "\<lparr>requests = [], messages = []\<rparr>"]
  note t2 = chunked_fetch_error_policy [where cur_id = 145
      and net = "\<lambda>r. case r of Get_dynamics c a b \<Rightarrow> if a = 1 then Response 404 [] else Response 500 []"
      and start = 1 and endd = 400 and st = "\<lparr>requests = [], messages = []\<rparr>"]
  have "chunked_dynamics_fetch (\<lambda>r. Response 404 []) 145 1 400 \<lparr>requests = [], messages = []\<rparr> =
     (Inr [], \<lparr>requests = [Get_dynamics 145 1 365, Get_dynamics 145 366 400], messages = []\<rparr>)"
    using t1 by (simp add: w fails_def partial_def window_requests_def)
  moreover have "\<exists>e. fst (chunked_dynamics_fetch
      (\<lambda>r. case r of Get_dynamics c a b \<Rightarrow> if a = 1 then Response 404 [] else Response 500 [])
      145 1 400 \<lparr>requests = [], messages = []\<rparr>) = Inl e"
    using t2 by (simp add: w fails_def raise_for_status_def)
  ultimately show ?thesis by simp
qed

section \<open>Properties of the aggregator\<close>

lemma find_filter_hd:
  "find P xs = (case filter P xs of [] \<Rightarrow> None | x # rest \<Rightarrow> Some x)"
  by (induction xs) auto

lemma valid_rows_resolve:
  "resolve code start endd currency_map =
     (case valid_rows (rows_for code currency_map) start endd of [] \<Rightarrow> None | r # rest \<Rightarrow> Some r)"
proof -
  have f: "filter P (filter (\<lambda>r. Cur_Abbreviation r = code) currency_map) =
           filter (\<lambda>r. Cur_Abbreviation r = code \<and> P r) currency_map" for P
    by (simp add: conj_commute)
  show ?thesis
    by (simp add: resolve_def valid_rows_def rows_for_def find_filter_hd f Let_def
        split: list.splits)
qed

lemma valid_rows_code:
  "valid_rows (rows_for code currency_map) start endd = r # rest \<Longrightarrow>
     rows_for code currency_map \<noteq> []"
  by (auto simp: valid_rows_def Let_def split: if_splits)

lemma series_loop_unresolved:
  assumes "valid_rows (rows_for code currency_map) start endd = []"
  shows "series_loop net (code # codes) currency_map start endd series st =
           series_loop net codes currency_map start endd series
             (shown (if rows_for code currency_map = [] then St_warning (Not_in_list code)
                     else St_info (No_Cur_ID code start endd)) st)"
  using assms by simp

lemma series_loop_resolved:
  assumes "valid_rows (rows_for code currency_map) start endd = r # rest"
  shows "series_loop net (code # codes) currency_map start endd series st =
           (case chunked_dynamics_fetch net (Cur_ID r)
                   (max start (Cur_DateStart r)) (min endd (Cur_DateEnd r)) st of
              (Inl e, st') \<Rightarrow> (Inl e, st')
            | (Inr df_dyn, st') \<Rightarrow>
                if df_dyn = [] then
                  series_loop net codes currency_map start endd series
                    (shown (St_info (No_dynamics code (max start (Cur_DateStart r))
                              (min endd (Cur_DateEnd r)))) st')
                else
                  series_loop net codes currency_map start endd
                    (series @ [(code, df_dyn)]) st')"
  using assms valid_rows_code [OF assms] by simp

lemma series_loop_append:
  "series_loop net (pre @ post) currency_map start endd series st =
     (case series_loop net pre currency_map start endd series st of
        (Inl e, st') \<Rightarrow> (Inl e, st')
      | (Inr series', st') \<Rightarrow> series_loop net post currency_map start endd series' st')"
proof (induction pre arbitrary: series st)
  case Nil
  show ?case by simp
next
  case (Cons code pre)
  show ?case
  proof (cases "valid_rows (rows_for code currency_map) start endd")
    case Nil
    show ?thesis
      unfolding append_Cons series_loop_unresolved [OF Nil] Cons.IH ..
  next
    case (Cons r rest)
    show ?thesis
      unfolding append_Cons series_loop_resolved [OF Cons]
      by (simp add: Cons.IH split: prod.split sum.split)
  qed
qed

subsection \<open>The rate in a column\<close>

text \<open>
  Claim C1 says that every rate in the column of a code is the official rate divided by
  the scale of the currency record. The function does not read \<open>Cur_Scale\<close>: it puts
  \<open>Cur_OfficialRate\<close> into the column as it is. For a record of scale 100 and an
  official rate of 3.5 the column holds 3.5, and not 0.035.
\<close>

theorem rates_not_divided_by_scale:
  "rates_for_currencies (\<lambda>r. Response 200 [\<lparr>Date = 5, Cur_OfficialRate = 3.5\<rparr>]) [''RUB'']
     [\<lparr>Cur_ID = 456, Cur_Abbreviation = ''RUB'', Cur_Scale = 100, Cur_Name = ''Russian ruble'',
       Cur_DateStart = 1, Cur_DateEnd = 1000\<rparr>] 5 5 \<lparr>requests = [], messages = []\<rparr> =
     (Inr \<lparr>Column_names = [''RUB''], Rows = [(5, [Some 3.5])]\<rparr>,
      \<lparr>requests = [Get_dynamics 456 5 5], messages = []\<rparr>) \<and>
   (3.5 :: real) \<noteq> 3.5 / 100"
  by (simp add: rates_for_currencies_def rows_for_def valid_rows_def
      chunked_dynamics_fetch_def fetch_loop.simps chunk_end_def max_days_def sent_def
      raise_for_status_def sort_values_def concat_axis1_def)

subsection \<open>A fetch that raises\<close>

text \<open>
  Claim C2 says that the aggregator catches the error of one code and goes on with the
  others. It does not: with two codes, of which the first gets a status 500, the function
  returns the error, no frame, and sends no request for the second code.
\<close>

theorem aggregator_aborts_counterexample:
  "rates_for_currencies
     (\<lambda>r. case r of Get_dynamics c a b \<Rightarrow>
        if c = 431 then Response 500 [] else Response 200 [\<lparr>Date = 1, Cur_OfficialRate = 3\<rparr>])
     [''USD'', ''EUR'']
     [\<lparr>Cur_ID = 431, Cur_Abbreviation = ''USD'', Cur_Scale = 1, Cur_Name = ''US dollar'',
       Cur_DateStart = 1, Cur_DateEnd = 1000\<rparr>,
      \<lparr>Cur_ID = 451, Cur_Abbreviation = ''EUR'', Cur_Scale = 1, Cur_Name = ''Euro'',
       Cur_DateStart = 1, Cur_DateEnd = 1000\<rparr>]
     1 1 \<lparr>requests = [], messages = []\<rparr> =
   (Inl (HTTPError 500), \<lparr>requests = [Get_dynamics 431 1 1], messages = []\<rparr>)"
  by (simp add: rates_for_currencies_def rows_for_def valid_rows_def
      chunked_dynamics_fetch_def fetch_loop.simps chunk_end_def max_days_def sent_def
      raise_for_status_def)

text \<open>
  Claim C2, as amended. When the codes before \<open>code\<close> are processed without an error, and
  the chunked fetch for the record that \<open>code\<close> resolves to raises the error \<open>e\<close>, then
  \<open>rates_for_currencies\<close> returns \<open>e\<close> to its caller with the session as the fetch left it:
  no frame is produced and the codes after \<open>code\<close> are not processed.
\<close>

theorem aggregator_propagates_fetch_error:
  assumes "series_loop net pre currency_map start endd [] st = (Inr series, st1)"
    and "valid_rows (rows_for code currency_map) start endd = r # rest"
    and "chunked_dynamics_fetch net (Cur_ID r) (max start (Cur_DateStart r))
           (min endd (Cur_DateEnd r)) st1 = (Inl e, st2)"
  shows "rates_for_currencies net (pre @ code # post) currency_map start endd st = (Inl e, st2)"
proof -
  have "series_loop net (pre @ code # post) currency_map start endd [] st =
          series_loop net (code # post) currency_map start endd series st1"
    unfolding series_loop_append assms(1) by simp
  also have "\<dots> = (Inl e, st2)"
    unfolding series_loop_resolved [OF assms(2)] assms(3) by simp
  finally show ?thesis by (simp add: rates_for_currencies_def)
qed

theorem aggregator_propagates_fetch_error_witness:
  "rates_for_currencies
     (\<lambda>r. case r of Get_dynamics c a b \<Rightarrow>
        if c = 431 then ConnectionError else Response 200 [\<lparr>Date = 1, Cur_OfficialRate = 3\<rparr>])
     ([''EUR''] @ ''USD'' # [''EUR''])
     [\<lparr>Cur_ID = 431, Cur_Abbreviation = ''USD'', Cur_Scale = 1, Cur_Name = ''US dollar'',
       Cur_DateStart = 1, Cur_DateEnd = 1000\<rparr>,
      \<lparr>Cur_ID = 451, Cur_Abbreviation = ''EUR'', Cur_Scale = 1, Cur_Name = ''Euro'',
       Cur_DateStart = 1, Cur_DateEnd = 1000\<rparr>]
     1 1 \<lparr>requests = [], messages = []\<rparr> =
   (Inl RequestException,
    \<lparr>requests = [Get_dynamics 451 1 1, Get_dynamics 431 1 1], messages = []\<rparr>)"
proof -
  let ?net = "\<lambda>r. case r of Get_dynamics c a b \<Rightarrow>
        if c = 431 then ConnectionError else Response 200 [\<lparr>Date = 1, Cur_OfficialRate = 3\<rparr>]"
  let ?usd = "\<lparr>Cur_ID = 431, Cur_Abbreviation = ''USD'', Cur_Scale = 1, Cur_Name = ''US dollar'',
       Cur_DateStart = 1, Cur_DateEnd = 1000\<rparr>"
  let ?eur = "\<lparr>Cur_ID = 451, Cur_Abbreviation = ''EUR'', Cur_Scale = 1, Cur_Name = ''Euro'',
       Cur_DateStart = 1, Cur_DateEnd = 1000\<rparr>"
  have a: "series_loop ?net [''EUR''] [?usd, ?eur] 1 1 [] \<lparr>requests = [], messages = []\<rparr> =
      (Inr [(''EUR'', [\<lparr>Date = 1, Cur_OfficialRate = 3\<rparr>])],
       \<lparr>requests = [Get_dynamics 451 1 1], messages = []\<rparr>)"
    by (simp add: rows_for_def valid_rows_def
      chunked_dynamics_fetch_def fetch_loop.simps chunk_end_def max_days_def sent_def
      raise_for_status_def sort_values_def)
  have b: "valid_rows (rows_for ''USD'' [?usd, ?eur]) 1 1 = ?usd # []"
    by (simp add: rows_for_def valid_rows_def)
  have c: "chunked_dynamics_fetch ?net (Cur_ID ?usd) (max 1 (Cur_DateStart ?usd))
           (min 1 (Cur_DateEnd ?usd)) \<lparr>requests = [Get_dynamics 451 1 1], messages = []\<rparr> =
        (Inl RequestException,
         \<lparr>requests = [Get_dynamics 451 1 1, Get_dynamics 431 1 1], messages = []\<rparr>)"
    by (simp add: chunked_dynamics_fetch_def fetch_loop.simps chunk_end_def max_days_def sent_def)
  from aggregator_propagates_fetch_error [OF a b c] show ?thesis .
qed

subsection \<open>Resolving a code\<close>

text \<open>
  Claim C7 says that a code without a candidate is skipped with a warning. For a code that
  is in the directory, but with no record whose window covers the start of the range, the
  message is shown with \<^verbatim>\<open>st.info\<close>, not with \<^verbatim>\<open>st.warning\<close>.
\<close>

theorem resolver_info_counterexample:
  "rates_for_currencies (\<lambda>r. ConnectionError) [''USD'']
     [\<lparr>Cur_ID = 431, Cur_Abbreviation = ''USD'', Cur_Scale = 1, Cur_Name = ''US dollar'',
       Cur_DateStart = 10, Cur_DateEnd = 20\<rparr>]
     1 5 \<lparr>requests = [], messages = []\<rparr> =
   (Inr empty_frame, \<lparr>requests = [], messages = [St_info (No_Cur_ID ''USD'' 1 5)]\<rparr>)"
  by (simp add: rates_for_currencies_def rows_for_def valid_rows_def shown_def)

text \<open>
  Claim C7, as amended. The record that the loop takes for a code, the first row of
  \<open>valid_rows\<close>, is the one of \<open>resolve\<close>: the first record of the code, in directory
  order, whose window covers the whole range and otherwise the first whose window covers
  the start. When there is none the code is skipped without an error and without a
  request, with a message: a warning when the directory has no record of the code, an
  info note when it has records but none covers the start. When there is one, its
  \<open>Cur_ID\<close> is the one fetched.
\<close>

theorem resolver_step:
  "resolve code start endd currency_map =
     (case valid_rows (rows_for code currency_map) start endd of [] \<Rightarrow> None | r # rest \<Rightarrow> Some r) \<and>
   (resolve code start endd currency_map = None \<longrightarrow>
      series_loop net (code # codes) currency_map start endd series st =
        series_loop net codes currency_map start endd series
          (shown (if rows_for code currency_map = [] then St_warning (Not_in_list code)
                  else St_info (No_Cur_ID code start endd)) st)) \<and>
   (\<forall>r. resolve code start endd currency_map = Some r \<longrightarrow>
      series_loop net (code # codes) currency_map start endd series st =
        (case chunked_dynamics_fetch net (Cur_ID r)
                (max start (Cur_DateStart r)) (min endd (Cur_DateEnd r)) st of
           (Inl e, st') \<Rightarrow> (Inl e, st')
         | (Inr df_dyn, st') \<Rightarrow>
             if df_dyn = [] then
               series_loop net codes currency_map start endd series
                 (shown (St_info (No_dynamics code (max start (Cur_DateStart r))
                           (min endd (Cur_DateEnd r)))) st')
             else
               series_loop net codes currency_map start endd
                 (series @ [(code, df_dyn)]) st'))"
proof (intro conjI impI allI)
  show "resolve code start endd currency_map =
     (case valid_rows (rows_for code currency_map) start endd of [] \<Rightarrow> None | r # rest \<Rightarrow> Some r)"
    by (rule valid_rows_resolve)
next
  assume "resolve code start endd currency_map = None"
  then have "valid_rows (rows_for code currency_map) start endd = []"
    by (simp add: valid_rows_resolve split: list.splits)
  then show "series_loop net (code # codes) currency_map start endd series st =
        series_loop net codes currency_map start endd series
          (shown (if rows_for code currency_map = [] then St_warning (Not_in_list code)
                  else St_info (No_Cur_ID code start endd)) st)"
    by (rule series_loop_unresolved)
next
  fix r
  assume "resolve code start endd currency_map = Some r"
  then obtain rest where "valid_rows (rows_for code currency_map) start endd = r # rest"
    by (auto simp: valid_rows_resolve split: list.splits)
  then show "series_loop net (code # codes) currency_map start endd series st =
        (case chunked_dynamics_fetch net (Cur_ID r)
                (max start (Cur_DateStart r)) (min endd (Cur_DateEnd r)) st of
           (Inl e, st') \<Rightarrow> (Inl e, st')
         | (Inr df_dyn, st') \<Rightarrow>
             if df_dyn = [] then
               series_loop net codes currency_map start endd series
                 (shown (St_info (No_dynamics code (max start (Cur_DateStart r))
                           (min endd (Cur_DateEnd r)))) st')
             else
               series_loop net codes currency_map start endd
                 (series @ [(code, df_dyn)]) st')"
    by (rule series_loop_resolved)
qed

theorem resolver_step_witness:
  "resolve ''USD'' 60 80
     [\<lparr>Cur_ID = 145, Cur_Abbreviation = ''USD'', Cur_Scale = 1, Cur_Name = ''US dollar'',
       Cur_DateStart = 1, Cur_DateEnd = 100\<rparr>,
      \<lparr>Cur_ID = 431, Cur_Abbreviation = ''USD'', Cur_Scale = 1, Cur_Name = ''US dollar'',
       Cur_DateStart = 50, Cur_DateEnd = 1000\<rparr>] =
     Some \<lparr>Cur_ID = 145, Cur_Abbreviation = ''USD'', Cur_Scale = 1, Cur_Name = ''US dollar'',
       Cur_DateStart = 1, Cur_DateEnd = 100\<rparr> \<and>
   series_loop (\<lambda>r. Response 404 []) [''USD'']
     [\<lparr>Cur_ID = 145, Cur_Abbreviation = ''USD'', Cur_Scale = 1, Cur_Name = ''US dollar'',
       Cur_DateStart = 1, Cur_DateEnd = 100\<rparr>,
      \<lparr>Cur_ID = 431, Cur_Abbreviation = ''USD'', Cur_Scale = 1, Cur_Name = ''US dollar'',
       Cur_DateStart = 50, Cur_DateEnd = 1000\<rparr>] 60 80 [] \<lparr>requests = [], messages = []\<rparr> =
     (Inr [], \<lparr>requests = [Get_dynamics 145 60 80],
               messages = [St_info (No_dynamics ''USD'' 60 80)]\<rparr>) \<and>
   series_loop (\<lambda>r. Response 404 []) [''EUR'']
     [\<lparr>Cur_ID = 145, Cur_Abbreviation = ''USD'', Cur_Scale = 1, Cur_Name = ''US dollar'',
       Cur_DateStart = 1, Cur_DateEnd = 100\<rparr>,
      \<lparr>Cur_ID = 431, Cur_Abbreviation = ''USD'', Cur_Scale = 1, Cur_Name = ''US dollar'',
       Cur_DateStart = 50, Cur_DateEnd = 1000\<rparr>] 60 80 [] \<lparr>requests = [], messages = []\<rparr> =
     (Inr [], \<lparr>requests = [], messages = [St_warning (Not_in_list ''EUR'')]\<rparr>)"
proof -
  let ?old = "\<lparr>Cur_ID = 145, Cur_Abbreviation = ''USD'', Cur_Scale = 1, Cur_Name = ''US dollar'',
       Cur_DateStart = 1, Cur_DateEnd = 100\<rparr>"
  let ?new = "\<lparr>Cur_ID = 431, Cur_Abbreviation = ''USD'', Cur_Scale = 1, Cur_Name = ''US dollar'',
       Cur_DateStart = 50, Cur_DateEnd = 1000\<rparr>"
  let ?st = "\<lparr>requests = [], messages = []\<rparr>"
  note t = resolver_step [where code = "''USD''" and start = 60 and endd = 80
      and currency_map = "[?old, ?new]" and net = "\<lambda>r. Response 404 []" and codes = "[]"
      and series = "[]" and st = ?st]
  note u = resolver_step [where code = "''EUR''" and start = 60 and endd = 80
      and currency_map = "[?old, ?new]" and net = "\<lambda>r. Response 404 []" and codes = "[]"
      and series = "[]" and st = ?st]
  have v: "valid_rows (rows_for ''USD'' [?old, ?new]) 60 80 = [?old, ?new]"
    by (simp add: rows_for_def valid_rows_def)
  have r: "resolve ''USD'' 60 80 [?old, ?new] = Some ?old"
    using t v by simp
  have w: "valid_rows (rows_for ''EUR'' [?old, ?new]) 60 80 = []"
    by (simp add: rows_for_def valid_rows_def)
  have n: "resolve ''EUR'' 60 80 [?old, ?new] = None"
    using u w by simp
  have f: "chunked_dynamics_fetch (\<lambda>r. Response 404 []) 145 60 80 ?st =
             (Inr [], \<lparr>requests = [Get_dynamics 145 60 80], messages = []\<rparr>)"
    by (simp add: chunked_dynamics_fetch_def fetch_loop.simps chunk_end_def max_days_def sent_def)
  from t r have "series_loop (\<lambda>r. Response 404 []) [''USD''] [?old, ?new] 60 80 [] ?st =
     (case chunked_dynamics_fetch (\<lambda>r. Response 404 []) (Cur_ID ?old)
                (max 60 (Cur_DateStart ?old)) (min 80 (Cur_DateEnd ?old)) ?st of
           (Inl e, st') \<Rightarrow> (Inl e, st')
         | (Inr df_dyn, st') \<Rightarrow>
             if df_dyn = [] then
               series_loop (\<lambda>r. Response 404 []) [] [?old, ?new] 60 80 []
                 (shown (St_info (No_dynamics ''USD'' (max 60 (Cur_DateStart ?old))
                           (min 80 (Cur_DateEnd ?old)))) st')
             else
               series_loop (\<lambda>r. Response 404 []) [] [?old, ?new] 60 80
                 ([] @ [(''USD'', df_dyn)]) st')"
    by blast
  then have a: "series_loop (\<lambda>r. Response 404 []) [''USD''] [?old, ?new] 60 80 [] ?st =
     (Inr [], \<lparr>requests = [Get_dynamics 145 60 80],
               messages = [St_info (No_dynamics ''USD'' 60 80)]\<rparr>)"
    by (simp add: f shown_def del: series_loop.simps(2))
  from u n have "series_loop (\<lambda>r. Response 404 []) [''EUR''] [?old, ?new] 60 80 [] ?st =
        series_loop (\<lambda>r. Response 404 []) [] [?old, ?new] 60 80 []
          (shown (if rows_for ''EUR'' [?old, ?new] = [] then St_warning (Not_in_list ''EUR'')
                  else St_info (No_Cur_ID ''EUR'' 60 80)) ?st)"
    by blast
  then have b: "series_loop (\<lambda>r. Response 404 []) [''EUR''] [?old, ?new] 60 80 [] ?st =
     (Inr [], \<lparr>requests = [], messages = [St_warning (Not_in_list ''EUR'')]\<rparr>)"
    by (simp add: rows_for_def shown_def del: series_loop.simps(2))
  from r a b show ?thesis by simp
qed

subsection \<open>The range that is fetched\<close>

text \<open>
  Claim C8. For the record \<open>r\<close> that a code resolves to, the loop calls the chunked
  fetcher on the range from \<open>max start (Cur_DateStart r)\<close> to
  \<open>min endd (Cur_DateEnd r)\<close>, and the days of that range are exactly the days that lie
  both in the requested range and in the validity window of \<open>r\<close>.
\<close>

theorem fetch_range_is_intersection:
  assumes "valid_rows (rows_for code currency_map) start endd = r # rest"
  shows "{max start (Cur_DateStart r) .. min endd (Cur_DateEnd r)} =
           {start .. endd} \<inter> {Cur_DateStart r .. Cur_DateEnd r} \<and>
         series_loop net (code # codes) currency_map start endd series st =
           (case chunked_dynamics_fetch net (Cur_ID r)
                   (max start (Cur_DateStart r)) (min endd (Cur_DateEnd r)) st of
              (Inl e, st') \<Rightarrow> (Inl e, st')
            | (Inr df_dyn, st') \<Rightarrow>
                if df_dyn = [] then
                  series_loop net codes currency_map start endd series
                    (shown (St_info (No_dynamics code (max start (Cur_DateStart r))
                              (min endd (Cur_DateEnd r)))) st')
                else
                  series_loop net codes currency_map start endd
                    (series @ [(code, df_dyn)]) st')"
proof
  show "{max start (Cur_DateStart r) .. min endd (Cur_DateEnd r)} =
           {start .. endd} \<inter> {Cur_DateStart r .. Cur_DateEnd r}"
    by auto
  show "series_loop net (code # codes) currency_map start endd series st =
           (case chunked_dynamics_fetch net (Cur_ID r)
                   (max start (Cur_DateStart r)) (min endd (Cur_DateEnd r)) st of
              (Inl e, st') \<Rightarrow> (Inl e, st')
            | (Inr df_dyn, st') \<Rightarrow>
                if df_dyn = [] then
                  series_loop net codes currency_map start endd series
                    (shown (St_info (No_dynamics code (max start (Cur_DateStart r))
                              (min endd (Cur_DateEnd r)))) st')
                else
                  series_loop net codes currency_map start endd
                    (series @ [(code, df_dyn)]) st')"
    using assms by (rule series_loop_resolved)
qed

theorem fetch_range_is_intersection_witness:
  "valid_rows (rows_for ''USD''
     [\<lparr>Cur_ID = 145, Cur_Abbreviation = ''USD'', Cur_Scale = 1, Cur_Name = ''US dollar'',
       Cur_DateStart = 1, Cur_DateEnd = 100\<rparr>]) 60 200 =
     [\<lparr>Cur_ID = 145, Cur_Abbreviation = ''USD'', Cur_Scale = 1, Cur_Name = ''US dollar'',
       Cur_DateStart = 1, Cur_DateEnd = 100\<rparr>] \<and>
   {60 .. 100 :: int} = {60 .. 200} \<inter> {1 .. 100} \<and>
   series_loop (\<lambda>r. Response 404 []) [''USD'']
     [\<lparr>Cur_ID = 145, Cur_Abbreviation = ''USD'', Cur_Scale = 1, Cur_Name = ''US dollar'',
       Cur_DateStart = 1, Cur_DateEnd = 100\<rparr>] 60 200 [] \<lparr>requests = [], messages = []\<rparr> =
     (Inr [], \<lparr>requests = [Get_dynamics 145 60 100],
               messages = [St_info (No_dynamics ''USD'' 60 100)]\<rparr>)"
proof -
  let ?usd = "\<lparr>Cur_ID = 145, Cur_Abbreviation = ''USD'', Cur_Scale = 1, Cur_Name = ''US dollar'',
       Cur_DateStart = 1, Cur_DateEnd = 100\<rparr>"
  let ?st = "\<lparr>requests = [], messages = []\<rparr>"
  have v: "valid_rows (rows_for ''USD'' [?usd]) 60 200 = ?usd # []"
    by (simp add: rows_for_def valid_rows_def)
  have f: "chunked_dynamics_fetch (\<lambda>r. Response 404 []) 145 60 100 ?st =
             (Inr [], \<lparr>requests = [Get_dynamics 145 60 100], messages = []\<rparr>)"
    by (simp add: chunked_dynamics_fetch_def fetch_loop.simps chunk_end_def max_days_def sent_def)
  note t = fetch_range_is_intersection [OF v, where net = "\<lambda>r. Response 404 []"
      and codes = "[]" and series = "[]" and st = ?st]
  from t have "{60 .. 100 :: int} = {60 .. 200} \<inter> {1 .. 100}"
    by simp
  moreover from t have "series_loop (\<lambda>r. Response 404 []) [''USD''] [?usd] 60 200 [] ?st =
     (Inr [], \<lparr>requests = [Get_dynamics 145 60 100],
               messages = [St_info (No_dynamics ''USD'' 60 100)]\<rparr>)"
    by (simp add: f shown_def del: series_loop.simps(2))
  ultimately show ?thesis using v by simp
qed

section \<open>Properties of the snapshot comparison\<close>













end
